theory Spec2Isabelle
  imports Main "HOL-Library.Word"
begin

unbundle bit_operations_syntax

section \<open>JavaScript numbers\<close>

text \<open>
  A JavaScript \<open>number\<close> is an IEEE 754 double. Amounts are SOMPI, the smallest unit of
  the currency, and the fee constants are whole, so every number here is a whole number,
  held in an \<open>int\<close>. Every whole number of magnitude up to \<open>2^53 = 9007199254740992\<close>
  is a double; a larger double is a significand of 53 bits times a power of two. The sum
  or difference of two doubles is the exact result rounded to the nearest double, a tie
  going to the even significand. Results stay finite here: the overflow to \<open>Infinity\<close>,
  beyond \<open>2^1024\<close>, is outside the model.

  \<open>shift a\<close> is the number of low bits a magnitude \<open>a\<close> loses to fit 53 bits.
\<close>

function shift :: "int \<Rightarrow> nat" where
  "shift a = (if a < 9007199254740992 then 0 else Suc (shift (a div 2)))"
  by pat_completeness auto
termination
  by (relation "measure nat") auto

declare shift.simps [simp del]

text \<open>The double nearest to a whole number.\<close>

definition to_double :: "int \<Rightarrow> int" where
  "to_double x =
     (if \<bar>x\<bar> \<le> 9007199254740992 then x
      else
        let a = \<bar>x\<bar>;
            e = shift a;
            q = a div 2 ^ e;
            r = a mod 2 ^ e;
            half = 2 ^ (e - 1);
            m = (if r > half \<or> (r = half \<and> odd q) then q + 1 else q)
        in sgn x * (m * 2 ^ e))"

text \<open>\<open>a + b\<close> and \<open>a - b\<close> on numbers.\<close>

definition js_add :: "int \<Rightarrow> int \<Rightarrow> int" where
  "js_add a b = to_double (a + b)"

definition js_sub :: "int \<Rightarrow> int \<Rightarrow> int" where
  "js_sub a b = to_double (a - b)"

text \<open>
  The sum of a list taken the way \<open>selectUtxos\<close> builds \<open>total\<close>: from 0, one
  \<open>+=\<close> per element, in order.
\<close>

definition js_sum :: "int list \<Rightarrow> int" where
  "js_sum xs = foldl js_add 0 xs"

section \<open>UTXO selection\<close>

record UtxoInfo =
  prevTxId :: string
  outpointIndex :: int
  amount :: int

record UtxoSelectionResult =
  hasEnough :: bool
  utxos :: "UtxoInfo list"
  fee :: int
  total_amount :: int

text \<open>
  The local variables \<open>fee\<close>, \<open>total\<close> and \<open>selected\<close> of \<open>selectUtxos\<close>, in
  this order.
\<close>

type_synonym select_vars = "int \<times> int \<times> UtxoInfo list"

text \<open>
  One pass through the body of the \<open>for\<close> loop: the variables after the pass, and
  whether the pass ended in \<open>break\<close>. The fee starts at 929 and grows by 1118 per
  candidate; an array has fewer than \<open>2^32\<close> elements, so the fee stays far below
  \<open>2^53\<close> and \<open>fee += 1118\<close> is exact. The other sums and differences involve
  amounts and round.
\<close>

definition loop_body :: "int \<Rightarrow> bool \<Rightarrow> select_vars \<Rightarrow> UtxoInfo \<Rightarrow> select_vars \<times> bool" where
  "loop_body amt feeIncluded vars utxo =
     (case vars of (fee0, total0, selected0) \<Rightarrow>
        let fee1 = fee0 + 1118;
            total1 = js_add total0 (amount utxo);
            selected1 = selected0 @ [utxo];
            targetAmount = (if feeIncluded then js_sub amt fee1 else amt);
            totalSpend = js_add targetAmount fee1
        in ((fee1, total1, selected1),
            total1 = totalSpend \<or> (total1 > totalSpend \<and> length selected1 > 1)))"

fun select_loop :: "int \<Rightarrow> bool \<Rightarrow> select_vars \<Rightarrow> UtxoInfo list \<Rightarrow> select_vars" where
  "select_loop amt feeIncluded vars [] = vars"
| "select_loop amt feeIncluded vars (utxo # rest) =
     (case loop_body amt feeIncluded vars utxo of
        (vars1, stop) \<Rightarrow> if stop then vars1 else select_loop amt feeIncluded vars1 rest)"

definition selectUtxos :: "int \<Rightarrow> UtxoInfo list \<Rightarrow> bool \<Rightarrow> UtxoSelectionResult" where
  "selectUtxos amt utxosInput feeIncluded =
     (case select_loop amt feeIncluded (239 + 690, 0, []) utxosInput of
        (fee1, total1, selected1) \<Rightarrow>
          let targetAmount = (if feeIncluded then js_sub amt fee1 else amt)
          in \<lparr> hasEnough = (total1 \<ge> js_add targetAmount fee1),
               utxos = selected1,
               fee = fee1,
               total_amount = total1 \<rparr>)"


section \<open>Building the transaction\<close>

text \<open>
  \<open>TransactionInput\<close>, \<open>TransactionOutput\<close> and \<open>Transaction\<close> are classes of the
  signing library; an object is the record of the fields \<open>createTransaction\<close> passes to
  its constructor. The fields \<open>value\<close>, \<open>prevTxId\<close> and \<open>outpointIndex\<close> of an input
  carry the prefix \<open>in_\<close>, the \<open>value\<close> of an output the prefix \<open>out_\<close>.
  The type \<open>'n\<close> is what JavaScript's \<open>Number(...)\<close> returns for a component of the
  derivation path, \<open>'s\<close> is the type of a script public key.
\<close>

record 'n TransactionInput =
  in_value :: int
  in_prevTxId :: string
  in_outpointIndex :: int
  addressType :: 'n
  addressIndex :: 'n

record 's TransactionOutput =
  out_value :: int
  scriptPublicKey :: 's

record ('n, 's) Transaction =
  version :: int
  inputs :: "'n TransactionInput list"
  outputs :: "'s TransactionOutput list"
  changeAddressType :: 'n
  changeAddressIndex :: 'n

text \<open>The object \<open>{ tx, fee }\<close> that \<open>createTransaction\<close> returns.\<close>

record ('n, 's) created =
  tx :: "('n, 's) Transaction"
  tx_fee :: int

text \<open>
  What \<open>createTransaction\<close> can throw: its own \<open>Error('Amount too high.')\<close>, or
  whatever \<open>addressToScriptPublicKey\<close> throws for an address it rejects.
\<close>

datatype tx_error = AmountTooHigh | AddressRejected

text \<open>\<open>s.split(c)\<close> for a one-character separator: a string with no separator is one piece.\<close>

fun split_on :: "char \<Rightarrow> string \<Rightarrow> string list" where
  "split_on c [] = [[]]"
| "split_on c (x # xs) =
     (if x = c then [] # split_on c xs
      else (case split_on c xs of
              [] \<Rightarrow> [[x]]
            | w # ws \<Rightarrow> (x # w) # ws))"

text \<open>\<open>xs[i]\<close> on an array: \<open>undefined\<close> (here \<open>None\<close>) past the end.\<close>

definition array_get :: "'a list \<Rightarrow> nat \<Rightarrow> 'a option" where
  "array_get xs i = (if i < length xs then Some (xs ! i) else None)"

text \<open>
  \<open>Number(x.toFixed(8))\<close> prints \<open>x\<close> with eight decimals (or, from \<open>10^21\<close> on, in
  the shortest form that reads back as \<open>x\<close>) and reads the text back, and
  \<open>Math.round(x)\<close> is the nearest whole number: both return a whole double \<open>x\<close>
  unchanged.
\<close>

definition Number_toFixed8 :: "int \<Rightarrow> int" where
  "Number_toFixed8 x = x"

definition Math_round :: "int \<Rightarrow> int" where
  "Math_round x = x"

text \<open>
  \<open>createTransaction\<close>. Its first two arguments stand for what the source imports:
  \<open>toNumber\<close> is JavaScript's \<open>Number\<close> on a path component (\<open>None\<close> is \<open>undefined\<close>),
  and \<open>addressToScriptPublicKey\<close> is the function of \<open>karlsen-util\<close>, \<open>None\<close> when it
  throws.
\<close>

definition createTransaction ::
  "(string option \<Rightarrow> 'n) \<Rightarrow> (string \<Rightarrow> 's option) \<Rightarrow>
   int \<Rightarrow> string \<Rightarrow> UtxoInfo list \<Rightarrow> string \<Rightarrow> string \<Rightarrow> bool \<Rightarrow>
   tx_error + ('n, 's) created" where
  "createTransaction toNumber addressToScriptPublicKey amt sendTo utxosInput derivationPath
       changeAddress feeIncluded =
     (let sel = selectUtxos amt utxosInput feeIncluded in
      if \<not> hasEnough sel then Inl AmountTooHigh
      else
        let path = split_on (CHR ''/'') derivationPath;
            ins = map (\<lambda>utxo. \<lparr> in_value = amount utxo,
                                in_prevTxId = prevTxId utxo,
                                in_outpointIndex = outpointIndex utxo,
                                addressType = toNumber (array_get path 3),
                                addressIndex = toNumber (array_get path 4) \<rparr>) (utxos sel);
            targetAmount = (if feeIncluded then Number_toFixed8 (js_sub amt (fee sel)) else amt)
        in case addressToScriptPublicKey sendTo of
             None \<Rightarrow> Inl AddressRejected
           | Some sendScript \<Rightarrow>
               let sendToOutput = \<lparr> out_value = targetAmount, scriptPublicKey = sendScript \<rparr>;
                   changeAmount = js_sub (js_sub (total_amount sel) targetAmount) (fee sel);
                   build = (\<lambda>outs. Inr \<lparr> tx = \<lparr> version = 0,
                                                 inputs = ins,
                                                 outputs = outs,
                                                 changeAddressType = toNumber (array_get path 3),
                                                 changeAddressIndex = toNumber (array_get path 4) \<rparr>,
                                          tx_fee = fee sel \<rparr>)
               in if changeAmount \<ge> 10000 then
                    (case addressToScriptPublicKey changeAddress of
                       None \<Rightarrow> Inl AddressRejected
                     | Some changeScript \<Rightarrow>
                         build [sendToOutput,
                                \<lparr> out_value = Math_round changeAmount,
                                  scriptPublicKey = changeScript \<rparr>])
                  else build [sendToOutput])"

section \<open>Asking the device for its application\<close>

type_synonym byte = "8 word"

text \<open>
  The index \<open>i\<close> of \<open>getAppAndVersion\<close> is a JavaScript number that only grows from 0:
  a natural number, or \<open>NaN\<close> (here \<open>None\<close>) once a length read past the end of the
  response, which is \<open>undefined\<close>, has been added to it.
\<close>

text \<open>\<open>r[i]\<close>: \<open>undefined\<close> past the end of the buffer and at \<open>NaN\<close>.\<close>

definition buf_get :: "byte list \<Rightarrow> nat option \<Rightarrow> byte option" where
  "buf_get r i = (case i of None \<Rightarrow> None
                  | Some k \<Rightarrow> if k < length r then Some (r ! k) else None)"

text \<open>The index after \<open>i++\<close>.\<close>

definition incr :: "nat option \<Rightarrow> nat option" where
  "incr i = map_option Suc i"

text \<open>The index after \<open>i += len\<close>, where \<open>len\<close> was read from the buffer.\<close>

definition add_assign :: "nat option \<Rightarrow> byte option \<Rightarrow> nat option" where
  "add_assign i len = (case (i, len) of (Some k, Some n) \<Rightarrow> Some (k + unat n) | _ \<Rightarrow> None)"

text \<open>
  \<open>r.slice(start, end)\<close> of a buffer: an offset that is \<open>NaN\<close> counts as 0, one past the
  end as the length, and the slice is empty when \<open>end\<close> is not after \<open>start\<close>.
\<close>

definition buf_offset :: "byte list \<Rightarrow> nat option \<Rightarrow> nat" where
  "buf_offset r i = (case i of None \<Rightarrow> 0 | Some k \<Rightarrow> min k (length r))"

definition buf_slice :: "byte list \<Rightarrow> nat option \<Rightarrow> nat option \<Rightarrow> byte list" where
  "buf_slice r start finish = take (buf_offset r finish - buf_offset r start) (drop (buf_offset r start) r)"

text \<open>\<open>buf.toString('ascii')\<close>: the high bit of every byte is dropped.\<close>

definition toString_ascii :: "byte list \<Rightarrow> string" where
  "toString_ascii bs = map (\<lambda>b. char_of (unat (b AND 0x7F))) bs"

record AppAndVersion =
  app_name :: string
  app_version :: string
  app_flags :: "byte list"

text \<open>
  What \<open>getAppAndVersion\<close> can throw: the error \<open>transport.send\<close> rejected with, or its
  own \<open>Error('getAppAndVersion: format not supported')\<close>.
\<close>

datatype 'e app_error = TransportFailed 'e | FormatNotSupported

text \<open>
  \<open>getAppAndVersion\<close>, given how \<open>transport.send(0xb0, 0x01, 0x00, 0x00)\<close> settled:
  \<open>Inl e\<close> when it rejected with \<open>e\<close>, \<open>Inr r\<close> when it answered the buffer \<open>r\<close>.
\<close>

definition getAppAndVersion :: "'e + byte list \<Rightarrow> 'e app_error + AppAndVersion" where
  "getAppAndVersion sent =
     (case sent of
        Inl e \<Rightarrow> Inl (TransportFailed e)
      | Inr r \<Rightarrow>
          let i0 = Some 0;
              format = buf_get r i0;
              i1 = incr i0
          in if format \<noteq> Some 1 then Inl FormatNotSupported
             else
               let nameLength = buf_get r i1;
                   i2 = incr i1;
                   i3 = add_assign i2 nameLength;
                   name = toString_ascii (buf_slice r i2 i3);
                   versionLength = buf_get r i3;
                   i4 = incr i3;
                   i5 = add_assign i4 versionLength;
                   version = toString_ascii (buf_slice r i4 i5);
                   flagLength = buf_get r i5;
                   i6 = incr i5;
                   i7 = add_assign i6 flagLength;
                   flags = buf_slice r i6 i7
               in Inr \<lparr> app_name = name, app_version = version, app_flags = flags \<rparr>)"

text \<open>A response in the fixed layout, followed by anything.\<close>

definition layout :: "byte list \<Rightarrow> byte list \<Rightarrow> byte list \<Rightarrow> byte list \<Rightarrow> byte list" where
  "layout nm ver fl rest =
     1 # of_nat (length nm) # nm @ of_nat (length ver) # ver @ of_nat (length fl) # fl @ rest"

section \<open>Acquiring the transport\<close>

text \<open>
  \<open>initTransport\<close> is an \<open>async\<close> function over the module variable
  \<open>transportState\<close>: a call runs without interruption up to an \<open>await\<close>, other calls
  run while it waits, and it continues once the awaited promise has settled. The model
  is a machine whose steps are these uninterrupted pieces, taken in any order.

  A promise returned by \<open>TransportWebHID.create()\<close> is pending, fulfilled with a
  transport handle, or rejected with a message.
\<close>

datatype 'h promise = Pending | Fulfilled 'h | Rejected string

text \<open>
  Where a call of \<open>initTransport\<close> stands: waiting at
  \<open>return await transportState.initPromise\<close> for the stored promise it read, waiting at
  \<open>transportState.transport = await transportState.initPromise\<close> for the promise it
  created itself (it remembers its argument \<open>type\<close>), returned with a handle, or ended by
  an exception.
\<close>

datatype 'h call = AwaitShared nat | AwaitOwn nat string | Returned 'h | Threw string

text \<open>
  The three fields of \<open>transportState\<close> (\<open>None\<close> is \<open>null\<close>; a promise is named by
  its position in \<open>promises\<close>), every promise \<open>TransportWebHID.create()\<close> has returned
  so far, oldest first, and every call of \<open>initTransport\<close> made so far, oldest first.
  A handle is an object, so a stored handle counts as true in a condition.
\<close>

record 'h world =
  transport :: "'h option"
  initPromise :: "nat option"
  type :: "string option"
  promises :: "'h promise list"
  calls :: "'h call list"

text \<open>The state when the module is loaded.\<close>

definition initial :: "'h world" where
  "initial = \<lparr> transport = None, initPromise = None, type = None, promises = [], calls = [] \<rparr>"

text \<open>
  A new call \<open>initTransport(ty)\<close>, from its entry to its first \<open>return\<close> or
  \<open>await\<close>: it returns the stored transport when the stored type equals \<open>ty\<close> and a
  transport is stored; else it waits for the stored promise when there is one; else it
  calls \<open>TransportWebHID.create()\<close>, stores the new promise and waits for it.
\<close>

definition initTransport_enter :: "string \<Rightarrow> 'h world \<Rightarrow> 'h world" where
  "initTransport_enter ty w =
     (case (if type w = Some ty then transport w else None) of
        Some h \<Rightarrow> w\<lparr> calls := calls w @ [Returned h] \<rparr>
      | None \<Rightarrow>
          (case initPromise w of
             Some p \<Rightarrow> w\<lparr> calls := calls w @ [AwaitShared p] \<rparr>
           | None \<Rightarrow>
               w\<lparr> promises := promises w @ [Pending],
                   initPromise := Some (length (promises w)),
                   calls := calls w @ [AwaitOwn (length (promises w)) ty] \<rparr>))"

text \<open>The state of promise \<open>p\<close>.\<close>

definition promise_at :: "'h world \<Rightarrow> nat \<Rightarrow> 'h promise" where
  "promise_at w p = (if p < length (promises w) then promises w ! p else Pending)"

text \<open>
  Call \<open>c\<close> continues after its \<open>await\<close>, which it can once the promise has settled
  (\<open>None\<close>: it cannot continue now). A call waiting for the stored promise returns the
  promise's handle; the call that created the promise stores the handle in
  \<open>transportState.transport\<close>, its own argument in \<open>transportState.type\<close>, and returns
  the handle. A rejected promise ends either call with the exception.
\<close>

definition initTransport_resume :: "nat \<Rightarrow> 'h world \<Rightarrow> 'h world option" where
  "initTransport_resume c w =
     (if c < length (calls w) then
        (case calls w ! c of
           AwaitShared p \<Rightarrow>
             (case promise_at w p of
                Pending \<Rightarrow> None
              | Fulfilled h \<Rightarrow> Some (w\<lparr> calls := (calls w)[c := Returned h] \<rparr>)
              | Rejected e \<Rightarrow> Some (w\<lparr> calls := (calls w)[c := Threw e] \<rparr>))
         | AwaitOwn p ty \<Rightarrow>
             (case promise_at w p of
                Pending \<Rightarrow> None
              | Fulfilled h \<Rightarrow>
                  Some (w\<lparr> transport := Some h, type := Some ty,
                           calls := (calls w)[c := Returned h] \<rparr>)
              | Rejected e \<Rightarrow> Some (w\<lparr> calls := (calls w)[c := Threw e] \<rparr>))
         | Returned h \<Rightarrow> None
         | Threw e \<Rightarrow> None)
      else None)"

text \<open>The device layer settles the pending promise \<open>p\<close>.\<close>

definition settle :: "nat \<Rightarrow> 'h promise \<Rightarrow> 'h world \<Rightarrow> 'h world option" where
  "settle p outcome w =
     (if p < length (promises w) \<and> promises w ! p = Pending \<and> outcome \<noteq> Pending
      then Some (w\<lparr> promises := (promises w)[p := outcome] \<rparr>)
      else None)"

text \<open>What can happen next, and a run of such events from a state.\<close>

datatype 'h event = Call string | Settle nat "'h promise" | Resume nat

fun fire :: "'h event \<Rightarrow> 'h world \<Rightarrow> 'h world option" where
  "fire (Call ty) w = Some (initTransport_enter ty w)"
| "fire (Settle p outcome) w = settle p outcome w"
| "fire (Resume c) w = initTransport_resume c w"

fun run :: "'h event list \<Rightarrow> 'h world \<Rightarrow> 'h world option" where
  "run [] w = Some w"
| "run (e # es) w = (case fire e w of None \<Rightarrow> None | Some w1 \<Rightarrow> run es w1)"

text \<open>
  The states a run can reach from \<open>initial\<close> are the consistent ones: there is at most
  one promise, it is the stored one, every waiting call waits for it, a stored or
  returned handle is the one it was fulfilled with, and at most one call waits at the
  second \<open>await\<close>, none once a transport is stored.
\<close>

fun is_own :: "'h call \<Rightarrow> bool" where
  "is_own (AwaitOwn p ty) = True"
| "is_own _ = False"

fun call_ok :: "'h promise list \<Rightarrow> 'h call \<Rightarrow> bool" where
  "call_ok ps (AwaitShared p) = (p = 0)"
| "call_ok ps (AwaitOwn p ty) = (p = 0)"
| "call_ok ps (Returned h) = (ps = [Fulfilled h])"
| "call_ok ps (Threw e) = True"

definition consistent :: "'h world \<Rightarrow> bool" where
  "consistent w =
     ((promises w = [] \<longrightarrow>
         initPromise w = None \<and> calls w = [] \<and> transport w = None)
      \<and> (promises w \<noteq> [] \<longrightarrow> length (promises w) = 1 \<and> initPromise w = Some 0)
      \<and> (\<forall>h. transport w = Some h \<longrightarrow> promises w = [Fulfilled h])
      \<and> ((type w = None) = (transport w = None))
      \<and> (\<forall>x \<in> set (calls w). call_ok (promises w) x)
      \<and> length (filter is_own (calls w)) \<le> (if transport w = None then 1 else 0))"

section \<open>Properties of the number model\<close>

lemma shift_bounds:
  "9007199254740992 \<le> a \<Longrightarrow> 0 < shift a \<and> 4503599627370496 \<le> a div 2 ^ shift a"
proof (induction a rule: shift.induct)
  case (1 a)
  from "1.prems" have unfold: "shift a = Suc (shift (a div 2))"
    by (subst shift.simps) simp
  show ?case
  proof (cases "a div 2 < 9007199254740992")
    case True
    then have "shift (a div 2) = 0"
      by (subst shift.simps) simp
    with "1.prems" unfold show ?thesis
      by simp
  next
    case False
    with "1.prems" "1.IH" have "4503599627370496 \<le> (a div 2) div 2 ^ shift (a div 2)"
      by simp
    moreover have "a div 2 ^ Suc (shift (a div 2)) = (a div 2) div 2 ^ shift (a div 2)"
      by (simp add: zdiv_zmult2_eq)
    ultimately show ?thesis
      using unfold by simp
  qed
qed

lemma to_double_exact: "\<bar>x\<bar> \<le> 9007199254740992 \<Longrightarrow> to_double x = x"
  by (simp add: to_double_def)

lemma to_double_big:
  assumes "9007199254740992 < x"
  shows "9007199254740992 \<le> to_double x"
proof -
  let ?e = "shift x"
  let ?q = "x div 2 ^ ?e"
  let ?m = "if x mod 2 ^ ?e > 2 ^ (?e - 1) \<or> (x mod 2 ^ ?e = 2 ^ (?e - 1) \<and> odd ?q)
            then ?q + 1 else ?q"
  from assms shift_bounds [of x] have e: "0 < ?e" and q: "4503599627370496 \<le> ?q"
    by simp_all
  from e have "(2::int) ^ 1 \<le> 2 ^ ?e"
    by (intro power_increasing) simp_all
  then have two: "(2::int) \<le> 2 ^ ?e"
    by simp
  from q have m: "4503599627370496 \<le> ?m"
    by simp
  have "4503599627370496 * 2 \<le> ?m * 2 ^ ?e"
    using m two by (intro mult_mono) simp_all
  moreover from assms have "to_double x = ?m * 2 ^ ?e"
    by (simp add: to_double_def Let_def)
  ultimately show ?thesis
    by simp
qed

lemma to_double_neg: "to_double (- x) = - to_double x"
  by (simp add: to_double_def Let_def sgn_if)

lemma to_double_ge:
  assumes "c \<le> x" and "\<bar>c\<bar> \<le> 9007199254740992"
  shows "c \<le> to_double x"
proof (cases "x \<le> 9007199254740992")
  case True
  with assms have "to_double x = x"
    by (intro to_double_exact) simp
  with assms show ?thesis by simp
next
  case False
  then have "9007199254740992 \<le> to_double x"
    by (intro to_double_big) simp
  with assms show ?thesis by simp
qed

lemma to_double_le:
  assumes "x \<le> c" and "\<bar>c\<bar> \<le> 9007199254740992"
  shows "to_double x \<le> c"
proof -
  from assms have "- c \<le> to_double (- x)"
    by (intro to_double_ge) simp_all
  then show ?thesis
    by (simp add: to_double_neg)
qed

lemma js_add_exact: "\<bar>a + b\<bar> \<le> 9007199254740992 \<Longrightarrow> js_add a b = a + b"
  by (simp add: js_add_def to_double_exact)

lemma js_sub_exact: "\<bar>a - b\<bar> \<le> 9007199254740992 \<Longrightarrow> js_sub a b = a - b"
  by (simp add: js_sub_def to_double_exact)

lemma foldl_js_add_exact:
  "\<forall>x \<in> set xs. 0 \<le> x \<Longrightarrow> 0 \<le> t \<Longrightarrow> t + sum_list xs \<le> 9007199254740992 \<Longrightarrow>
     foldl js_add t xs = t + sum_list xs"
proof (induction xs arbitrary: t)
  case Nil
  then show ?case by simp
next
  case (Cons x xs)
  from Cons.prems have rest: "0 \<le> sum_list xs"
    by (intro sum_list_nonneg) simp
  with Cons.prems have step: "js_add t x = t + x"
    by (intro js_add_exact) simp
  from Cons.prems have "foldl js_add (t + x) xs = (t + x) + sum_list xs"
    by (intro Cons.IH) simp_all
  with step show ?case
    by simp
qed

lemma sum_list_take_le:
  assumes "\<forall>x \<in> set xs. (0::int) \<le> x"
  shows "0 \<le> sum_list (take k xs) \<and> sum_list (take k xs) \<le> sum_list xs"
proof -
  have "sum_list xs = sum_list (take k xs) + sum_list (drop k xs)"
    by (metis append_take_drop_id sum_list_append)
  moreover from assms have "0 \<le> sum_list (drop k xs)"
    by (intro sum_list_nonneg) (auto dest: in_set_dropD)
  moreover from assms have "0 \<le> sum_list (take k xs)"
    by (intro sum_list_nonneg) (auto dest: in_set_takeD)
  ultimately show ?thesis
    by simp
qed

lemma js_sum_exact:
  assumes "\<forall>x \<in> set xs. 0 \<le> x" and "sum_list xs \<le> 9007199254740992"
  shows "js_sum (take k xs) = sum_list (take k xs)"
proof -
  from assms(1) have nn: "\<forall>x \<in> set (take k xs). 0 \<le> x"
    by (auto dest: in_set_takeD)
  from assms sum_list_take_le [OF assms(1), of k]
  have "0 + sum_list (take k xs) \<le> 9007199254740992"
    by simp
  with nn have "foldl js_add 0 (take k xs) = 0 + sum_list (take k xs)"
    by (intro foldl_js_add_exact) simp_all
  then show ?thesis
    by (simp add: js_sum_def)
qed

section \<open>Properties of the selection loop\<close>

lemma select_loop_shape:
  "select_loop amt fi (f, t, sel) us = (f', t', sel') \<Longrightarrow>
     \<exists>k. k \<le> length us \<and> sel' = sel @ take k us \<and> f' = f + 1118 * int k
        \<and> t' = foldl js_add t (map amount (take k us))"
proof (induction us arbitrary: f t sel)
  case Nil
  then show ?case by simp
next
  case (Cons u rest)
  let ?stop = "snd (loop_body amt fi (f, t, sel) u)"
  show ?case
  proof (cases ?stop)
    case True
    with Cons.prems have "f' = f + 1118 \<and> t' = js_add t (amount u) \<and> sel' = sel @ [u]"
      by (auto simp: loop_body_def Let_def)
    then have "Suc 0 \<le> length (u # rest) \<and> sel' = sel @ take (Suc 0) (u # rest)
        \<and> f' = f + 1118 * int (Suc 0)
        \<and> t' = foldl js_add t (map amount (take (Suc 0) (u # rest)))"
      by simp
    then show ?thesis by blast
  next
    case False
    with Cons.prems
    have "select_loop amt fi (f + 1118, js_add t (amount u), sel @ [u]) rest = (f', t', sel')"
      by (auto simp: loop_body_def Let_def split: if_splits)
    from Cons.IH [OF this] obtain k where k: "k \<le> length rest"
      "sel' = (sel @ [u]) @ take k rest" "f' = f + 1118 + 1118 * int k"
      "t' = foldl js_add (js_add t (amount u)) (map amount (take k rest))"
      by auto
    then have "Suc k \<le> length (u # rest) \<and> sel' = sel @ take (Suc k) (u # rest)
        \<and> f' = f + 1118 * int (Suc k)
        \<and> t' = foldl js_add t (map amount (take (Suc k) (u # rest)))"
      by simp
    then show ?thesis by blast
  qed
qed


lemma selectUtxos_shape:
  "\<exists>k. k \<le> length us \<and> utxos (selectUtxos amt us fi) = take k us
      \<and> fee (selectUtxos amt us fi) = 239 + 690 + 1118 * int k
      \<and> total_amount (selectUtxos amt us fi) = js_sum (map amount (take k us))"
proof -
  obtain f' t' sel' where r: "select_loop amt fi (239 + 690, 0, []) us = (f', t', sel')"
    by (metis prod_cases3)
  from select_loop_shape [OF r] obtain k where "k \<le> length us" "sel' = take k us"
    "f' = 239 + 690 + 1118 * int k" "t' = js_sum (map amount (take k us))"
    by (auto simp: js_sum_def)
  with r show ?thesis
    by (auto simp: selectUtxos_def Let_def)
qed

lemma hasEnough_iff:
  "hasEnough (selectUtxos amt us fi)
     = (total_amount (selectUtxos amt us fi)
          \<ge> js_add (if fi then js_sub amt (fee (selectUtxos amt us fi)) else amt)
               (fee (selectUtxos amt us fi)))"
  by (simp add: selectUtxos_def Let_def split: prod.splits)

lemma empty_fee_included: "(js_add (js_sub amt 929) 929 \<le> 0) = (amt \<le> 0)"
proof (cases "amt \<le> 0")
  case True
  then have "js_sub amt 929 \<le> - 929"
    unfolding js_sub_def by (intro to_double_le) simp_all
  then have "js_add (js_sub amt 929) 929 \<le> 0"
    unfolding js_add_def by (intro to_double_le) simp_all
  with True show ?thesis by simp
next
  case False
  then have "- 928 \<le> js_sub amt 929"
    unfolding js_sub_def by (intro to_double_ge) simp_all
  then have "1 \<le> js_add (js_sub amt 929) 929"
    unfolding js_add_def by (intro to_double_ge) simp_all
  with False show ?thesis by simp
qed

lemma empty_fee_excluded: "(js_add amt 929 \<le> 0) = (amt + 929 \<le> 0)"
proof (cases "amt + 929 \<le> 0")
  case True
  then have "js_add amt 929 \<le> 0"
    unfolding js_add_def by (intro to_double_le) simp_all
  with True show ?thesis by simp
next
  case False
  then have "1 \<le> js_add amt 929"
    unfolding js_add_def by (intro to_double_ge) simp_all
  with False show ?thesis by simp
qed

section \<open>Properties of the response parser\<close>

lemma buf_get_at: "buf_get (pre @ b # post) (Some (length pre)) = Some b"
  by (simp add: buf_get_def)

lemma buf_slice_at:
  "buf_slice (pre @ mid @ post) (Some (length pre)) (Some (length pre + length mid)) = mid"
  by (simp add: buf_slice_def buf_offset_def)

lemma unat_length_byte: "n < 256 \<Longrightarrow> unat (of_nat n :: byte) = n"
  by (simp add: unat_of_nat)

lemma getAppAndVersion_layout:
  assumes "length nm < 256" "length ver < 256" "length fl < 256"
  shows "getAppAndVersion (Inr (layout nm ver fl rest))
     = Inr \<lparr> app_name = toString_ascii nm, app_version = toString_ascii ver, app_flags = fl \<rparr>"
proof -
  let ?r = "layout nm ver fl rest"
  let ?n = "of_nat (length nm) :: byte"
  let ?v = "of_nat (length ver) :: byte"
  let ?f = "of_nat (length fl) :: byte"
  have g0: "buf_get ?r (Some 0) = Some 1"
    by (simp add: layout_def buf_get_def)
  have g1: "buf_get ?r (Some (Suc 0)) = Some ?n"
    by (simp add: layout_def buf_get_def)
  have s1: "buf_slice ?r (Some (Suc (Suc 0))) (Some (Suc (Suc (length nm)))) = nm"
    using buf_slice_at [of "[1, ?n]" nm "?v # ver @ ?f # fl @ rest"]
    by (simp add: layout_def)
  have g2: "buf_get ?r (Some (Suc (Suc (length nm)))) = Some ?v"
    using buf_get_at [of "[1, ?n] @ nm" ?v "ver @ ?f # fl @ rest"]
    by (simp add: layout_def)
  have s2: "buf_slice ?r (Some (Suc (Suc (Suc (length nm)))))
      (Some (Suc (Suc (Suc (length nm + length ver))))) = ver"
    using buf_slice_at [of "[1, ?n] @ nm @ [?v]" ver "?f # fl @ rest"]
    by (simp add: layout_def)
  have g3: "buf_get ?r (Some (Suc (Suc (Suc (length nm + length ver))))) = Some ?f"
    using buf_get_at [of "[1, ?n] @ nm @ [?v] @ ver" ?f "fl @ rest"]
    by (simp add: layout_def)
  have s3: "buf_slice ?r (Some (Suc (Suc (Suc (Suc (length nm + length ver))))))
      (Some (Suc (Suc (Suc (Suc (length nm + length ver + length fl)))))) = fl"
    using buf_slice_at [of "[1, ?n] @ nm @ [?v] @ ver @ [?f]" fl rest]
    by (simp add: layout_def add.assoc)
  show ?thesis
    unfolding getAppAndVersion_def Let_def
    by (simp add: incr_def add_assign_def g0 g1 s1 g2 s2 g3 s3 unat_length_byte assms)
qed

lemma getAppAndVersion_format_iff:
  "(getAppAndVersion (Inr r) = Inl FormatNotSupported) = (r = [] \<or> hd r \<noteq> 1)"
  by (cases r) (auto simp: getAppAndVersion_def buf_get_def Let_def)

lemma getAppAndVersion_returns:
  "r \<noteq> [] \<Longrightarrow> hd r = 1 \<Longrightarrow> \<exists>res. getAppAndVersion (Inr r) = Inr res"
  by (cases r) (auto simp: getAppAndVersion_def buf_get_def Let_def)

lemma ascii_KL: "toString_ascii [0x4B, 0x4C] = ''KL''"
  by code_simp

lemma ascii_1: "toString_ascii [0x31] = ''1''"
  by code_simp

lemma toString_ascii_high_bit: "toString_ascii [0xCB] = ''K''"
  by code_simp

section \<open>Properties of the transport machine\<close>

lemma consistent_initial: "consistent initial"
  by (simp add: consistent_def initial_def)

lemma filter_update_drop:
  "c < length xs \<Longrightarrow> P (xs ! c) \<Longrightarrow> \<not> P y \<Longrightarrow>
     length (filter P (xs[c := y])) = length (filter P xs) - 1"
proof (induction xs arbitrary: c)
  case Nil
  then show ?case by simp
next
  case (Cons x xs)
  show ?case
  proof (cases c)
    case 0
    with Cons.prems show ?thesis by simp
  next
    case (Suc d)
    with Cons.prems have "length (filter P (xs[d := y])) = length (filter P xs) - 1"
      by (intro Cons.IH) simp_all
    moreover from Suc Cons.prems have "0 < length (filter P xs)"
      by (auto simp: filter_empty_conv length_greater_0_conv intro: nth_mem)
    ultimately show ?thesis using Suc by simp
  qed
qed

lemma filter_update_same:
  "c < length xs \<Longrightarrow> \<not> P (xs ! c) \<Longrightarrow> \<not> P y \<Longrightarrow>
     length (filter P (xs[c := y])) = length (filter P xs)"
proof (induction xs arbitrary: c)
  case Nil
  then show ?case by simp
next
  case (Cons x xs)
  then show ?case by (cases c) simp_all
qed

lemma singleton_nth: "length ps = Suc 0 \<Longrightarrow> (ps = [x]) = (ps ! 0 = x)"
  by (cases ps) auto

lemma consistent_enter: "consistent w \<Longrightarrow> consistent (initTransport_enter ty w)"
  by (auto simp: consistent_def initTransport_enter_def split: option.splits if_splits)

lemma call_ok_pending: "call_ok [Pending] x \<Longrightarrow> call_ok [outcome] x"
  by (cases x) simp_all

lemma consistent_settle:
  assumes "consistent w" and "settle p outcome w = Some w'"
  shows "consistent w'"
proof -
  from assms(2) have p: "p < length (promises w)" "promises w ! p = Pending"
    and w': "w' = w\<lparr> promises := (promises w)[p := outcome] \<rparr>"
    by (auto simp: settle_def split: if_splits)
  from p assms(1) have one: "promises w = [Pending]" "p = 0"
    by (auto simp: consistent_def length_Suc_conv)
  with assms(1) have "transport w = None"
    by (auto simp: consistent_def)
  with assms(1) one show ?thesis
    unfolding w' by (auto simp: consistent_def intro: call_ok_pending)
qed

lemma consistent_resume:
  assumes "consistent w" and "initTransport_resume c w = Some w'"
  shows "consistent w'"
proof -
  from assms(2) have c: "c < length (calls w)"
    by (auto simp: initTransport_resume_def split: if_splits)
  then have mem: "calls w ! c \<in> set (calls w)"
    by simp
  with assms(1) have ok: "call_ok (promises w) (calls w ! c)"
    by (simp add: consistent_def)
  have upd: "x \<in> set ((calls w)[c := y]) \<Longrightarrow> x = y \<or> x \<in> set (calls w)" for x y
    by (auto dest: set_update_subset_insert [THEN subsetD])
  show ?thesis
  proof (cases "calls w ! c")
    case (AwaitShared p)
    with assms c have "length (filter is_own ((calls w)[c := y])) = length (filter is_own (calls w))"
      if "\<not> is_own y" for y
      using that by (simp add: filter_update_same)
    with assms AwaitShared c ok show ?thesis
      by (auto simp: initTransport_resume_def promise_at_def consistent_def
          singleton_nth split: if_splits promise.splits dest!: upd)
  next
    case (AwaitOwn p ty)
    with c have drop: "length (filter is_own ((calls w)[c := y])) = length (filter is_own (calls w)) - 1"
      if "\<not> is_own y" for y
      using that by (simp add: filter_update_drop)
    from AwaitOwn mem have "\<exists>x \<in> set (calls w). is_own x"
      by (intro bexI [of _ "AwaitOwn p ty"]) simp_all
    then have "filter is_own (calls w) \<noteq> []"
      by (simp add: filter_empty_conv)
    with assms(1) have none: "transport w = None"
      by (auto simp: consistent_def split: if_splits)
    with assms AwaitOwn c ok drop show ?thesis
      by (auto simp: initTransport_resume_def promise_at_def consistent_def
          singleton_nth split: if_splits promise.splits dest!: upd)
  next
    case (Returned h)
    with assms(2) c show ?thesis by (simp add: initTransport_resume_def)
  next
    case (Threw e)
    with assms(2) c show ?thesis by (simp add: initTransport_resume_def)
  qed
qed

lemma consistent_fire: "consistent w \<Longrightarrow> fire e w = Some w' \<Longrightarrow> consistent w'"
  by (cases e) (auto intro: consistent_enter consistent_settle consistent_resume)

lemma consistent_run: "consistent w \<Longrightarrow> run es w = Some w' \<Longrightarrow> consistent w'"
proof (induction es arbitrary: w)
  case Nil
  then show ?case by simp
next
  case (Cons e es)
  then show ?case
    by (auto split: option.splits intro: consistent_fire)
qed


lemma fire_keeps_promise:
  assumes "consistent w" and "promises w = [Fulfilled h]" and "fire e w = Some w'"
  shows "promises w' = [Fulfilled h]"
proof (cases e)
  case (Call ty)
  from assms(1,2) have "initPromise w = Some 0"
    by (simp add: consistent_def)
  with assms Call show ?thesis
    by (auto simp: initTransport_enter_def split: option.splits if_splits)
next
  case (Settle p outcome)
  with assms show ?thesis
    by (auto simp: settle_def split: if_splits)
next
  case (Resume c)
  with assms show ?thesis
    by (auto simp: initTransport_resume_def split: if_splits call.splits promise.splits)
qed

lemma run_keeps_promise:
  "consistent w \<Longrightarrow> promises w = [Fulfilled h] \<Longrightarrow> run es w = Some w' \<Longrightarrow>
     promises w' = [Fulfilled h]"
proof (induction es arbitrary: w)
  case Nil
  then show ?case by simp
next
  case (Cons e es)
  from Cons.prems obtain w1 where w1: "fire e w = Some w1" and rest: "run es w1 = Some w'"
    by (auto split: option.splits)
  from Cons.prems(1) w1 have "consistent w1"
    by (rule consistent_fire)
  moreover from Cons.prems(1,2) w1 have "promises w1 = [Fulfilled h]"
    by (rule fire_keeps_promise)
  ultimately show ?case using rest
    by (rule Cons.IH)
qed

lemma no_own_when_acquired:
  assumes "consistent w" and "transport w = Some h" and "c < length (calls w)"
  shows "\<not> is_own (calls w ! c)"
proof
  assume "is_own (calls w ! c)"
  with assms(3) have "\<exists>x \<in> set (calls w). is_own x"
    by (intro bexI [of _ "calls w ! c"]) simp_all
  then have "filter is_own (calls w) \<noteq> []"
    by (simp add: filter_empty_conv)
  with assms(1,2) show False
    by (simp add: consistent_def)
qed

lemma fire_keeps_transport:
  assumes "consistent w" and "transport w = Some h" and "fire e w = Some w'"
  shows "transport w' = Some h \<and> type w' = type w"
proof (cases e)
  case (Call ty)
  with assms show ?thesis
    by (auto simp: initTransport_enter_def split: option.splits if_splits)
next
  case (Settle p outcome)
  with assms show ?thesis
    by (auto simp: settle_def split: if_splits)
next
  case (Resume c)
  with assms(3) have c: "c < length (calls w)"
    by (auto simp: initTransport_resume_def split: if_splits)
  with assms(1,2) have "\<not> is_own (calls w ! c)"
    by (rule no_own_when_acquired)
  with assms Resume c show ?thesis
    by (auto simp: initTransport_resume_def split: if_splits call.splits promise.splits)
qed

lemma run_keeps_transport:
  "consistent w \<Longrightarrow> transport w = Some h \<Longrightarrow> run es w = Some w' \<Longrightarrow>
     transport w' = Some h \<and> type w' = type w"
proof (induction es arbitrary: w)
  case Nil
  then show ?case by simp
next
  case (Cons e es)
  from Cons.prems obtain w1 where w1: "fire e w = Some w1" and rest: "run es w1 = Some w'"
    by (auto split: option.splits)
  from Cons.prems(1) w1 have i1: "consistent w1"
    by (rule consistent_fire)
  from Cons.prems(1,2) w1 have t1: "transport w1 = Some h \<and> type w1 = type w"
    by (rule fire_keeps_transport)
  with Cons.IH [OF i1 _ rest] show ?case
    by simp
qed

lemma returned_gives_promise:
  assumes "consistent w" and "c < length (calls w)" and "calls w ! c = Returned h"
  shows "promises w = [Fulfilled h]"
proof -
  from assms(2) have "calls w ! c \<in> set (calls w)"
    by simp
  with assms(1) have "call_ok (promises w) (calls w ! c)"
    by (simp add: consistent_def)
  with assms(3) show ?thesis
    by simp
qed

lemma later_call_returns:
  assumes "consistent w" and "promises w = [Fulfilled h]"
  shows "promises (initTransport_enter ty w) = promises w
    \<and> (calls (initTransport_enter ty w) ! length (calls w) = Returned h
       \<or> (\<exists>w2. initTransport_resume (length (calls w)) (initTransport_enter ty w) = Some w2
             \<and> calls w2 ! length (calls w) = Returned h
             \<and> promises w2 = promises w))"
proof -
  from assms have ip: "initPromise w = Some 0"
    by (simp add: consistent_def)
  show ?thesis
  proof (cases "type w = Some ty \<and> transport w \<noteq> None")
    case True
    then obtain h' where h': "transport w = Some h'"
      by auto
    with assms have "h' = h"
      by (auto simp: consistent_def)
    with True h' show ?thesis
      by (simp add: initTransport_enter_def)
  next
    case False
    with ip have enter: "initTransport_enter ty w = w\<lparr> calls := calls w @ [AwaitShared 0] \<rparr>"
      by (auto simp: initTransport_enter_def split: option.splits)
    show ?thesis
      unfolding enter using assms(2)
      by (simp add: initTransport_resume_def promise_at_def)
  qed
qed

section \<open>Claims about \<open>selectUtxos\<close>\<close>

text \<open>
  C1 (Scenario A). The call \<open>selectUtxos(60000, [{amount:50000},{amount:40000}], false)\<close>
  does not end with fee 2165, and the fee after the first candidate is not 1047: the base
  cost is \<open>239 + 690 = 929\<close>, so one candidate gives 2047 and two give 3165.
\<close>

theorem scenario_A_fee_counterexample:
  "fst (fst (loop_body 60000 False (239 + 690, 0, [])
       \<lparr>prevTxId = [], outpointIndex = 0, amount = 50000\<rparr>)) \<noteq> 1047
   \<and> fee (selectUtxos 60000
       [\<lparr>prevTxId = [], outpointIndex = 0, amount = 50000\<rparr>,
        \<lparr>prevTxId = [], outpointIndex = 1, amount = 40000\<rparr>] False) \<noteq> 2165"
  by (simp add: selectUtxos_def loop_body_def Let_def js_add_def js_sub_def to_double_def)

text \<open>
  C1, amended. For the two candidates of Scenario A (amounts 50000 and 40000, whatever
  their outpoints), target 60000 and \<open>feeIncluded = false\<close>: the first pass of the loop
  leaves fee 2047 and total 50000 and does not stop (\<open>50000 < 60000 + 2047\<close>); the second
  pass leaves fee 3165 and total 90000 and stops; the result has \<open>hasEnough = true\<close>,
  exactly the two candidates selected, and fee 3165.
\<close>

theorem scenario_A:
  "loop_body 60000 False (239 + 690, 0, [])
       \<lparr>prevTxId = p1, outpointIndex = i1, amount = 50000\<rparr>
     = ((2047, 50000, [\<lparr>prevTxId = p1, outpointIndex = i1, amount = 50000\<rparr>]), False)
   \<and> (50000 :: int) < 60000 + 2047
   \<and> loop_body 60000 False (2047, 50000, [\<lparr>prevTxId = p1, outpointIndex = i1, amount = 50000\<rparr>])
       \<lparr>prevTxId = p2, outpointIndex = i2, amount = 40000\<rparr>
     = ((3165, 90000, [\<lparr>prevTxId = p1, outpointIndex = i1, amount = 50000\<rparr>,
                        \<lparr>prevTxId = p2, outpointIndex = i2, amount = 40000\<rparr>]), True)
   \<and> selectUtxos 60000
       [\<lparr>prevTxId = p1, outpointIndex = i1, amount = 50000\<rparr>,
        \<lparr>prevTxId = p2, outpointIndex = i2, amount = 40000\<rparr>] False
     = \<lparr> hasEnough = True,
         utxos = [\<lparr>prevTxId = p1, outpointIndex = i1, amount = 50000\<rparr>,
                  \<lparr>prevTxId = p2, outpointIndex = i2, amount = 40000\<rparr>],
         fee = 3165,
         total_amount = 90000 \<rparr>"
  by (simp add: selectUtxos_def loop_body_def Let_def js_add_def js_sub_def to_double_def)

text \<open>
  C2. The returned fee is \<open>239 + 690 + 1118 * k\<close> for \<open>k\<close> selected outputs. So of two
  results the one with more selected outputs has the strictly larger fee, and every pass
  of the loop raises the running fee (by 1118).
\<close>

theorem selectUtxos_fee_linear:
  "fee (selectUtxos amt us fi)
     = 239 + 690 + 1118 * int (length (utxos (selectUtxos amt us fi)))
   \<and> (length (utxos (selectUtxos amt us fi)) < length (utxos (selectUtxos amt' us' fi'))
        \<longrightarrow> fee (selectUtxos amt us fi) < fee (selectUtxos amt' us' fi'))
   \<and> fst (fst (loop_body amt fi (f, t, sel) u)) = f + 1118
   \<and> f \<le> fst (fst (loop_body amt fi (f, t, sel) u))"
proof -
  have lin: "fee (selectUtxos a xs b) = 239 + 690 + 1118 * int (length (utxos (selectUtxos a xs b)))"
    for a xs b
  proof -
    from selectUtxos_shape [of xs a b] obtain k where "k \<le> length xs"
      "utxos (selectUtxos a xs b) = take k xs" "fee (selectUtxos a xs b) = 239 + 690 + 1118 * int k"
      by blast
    then show ?thesis by simp
  qed
  have mono: "length (utxos (selectUtxos amt us fi)) < length (utxos (selectUtxos amt' us' fi'))
        \<longrightarrow> fee (selectUtxos amt us fi) < fee (selectUtxos amt' us' fi')"
    by (simp add: lin)
  have step: "fst (fst (loop_body amt fi (f, t, sel) u)) = f + 1118"
    by (simp add: loop_body_def Let_def)
  from lin mono step show ?thesis by simp
qed

theorem selectUtxos_fee_linear_witness:
  "fee (selectUtxos 1000 [\<lparr>prevTxId = [], outpointIndex = 0, amount = 3047\<rparr>] False) = 2047
   \<and> length (utxos (selectUtxos 1000 [\<lparr>prevTxId = [], outpointIndex = 0, amount = 3047\<rparr>] False))
       < length (utxos (selectUtxos 60000
           [\<lparr>prevTxId = [], outpointIndex = 0, amount = 50000\<rparr>,
            \<lparr>prevTxId = [], outpointIndex = 1, amount = 40000\<rparr>] False))
   \<and> fee (selectUtxos 1000 [\<lparr>prevTxId = [], outpointIndex = 0, amount = 3047\<rparr>] False)
       < fee (selectUtxos 60000
           [\<lparr>prevTxId = [], outpointIndex = 0, amount = 50000\<rparr>,
            \<lparr>prevTxId = [], outpointIndex = 1, amount = 40000\<rparr>] False)"
proof -
  have len: "length (utxos (selectUtxos 1000 [\<lparr>prevTxId = [], outpointIndex = 0, amount = 3047\<rparr>] False))
       < length (utxos (selectUtxos 60000
           [\<lparr>prevTxId = [], outpointIndex = 0, amount = 50000\<rparr>,
            \<lparr>prevTxId = [], outpointIndex = 1, amount = 40000\<rparr>] False))"
    by (simp add: selectUtxos_def loop_body_def Let_def js_add_def js_sub_def to_double_def)
  have one: "length (utxos (selectUtxos 1000 [\<lparr>prevTxId = [], outpointIndex = 0, amount = 3047\<rparr>] False)) = 1"
    by (simp add: selectUtxos_def loop_body_def Let_def js_add_def js_sub_def to_double_def)
  note inst = selectUtxos_fee_linear [of 1000 "[\<lparr>prevTxId = [], outpointIndex = 0, amount = 3047\<rparr>]" False
      60000 "[\<lparr>prevTxId = [], outpointIndex = 0, amount = 50000\<rparr>,
              \<lparr>prevTxId = [], outpointIndex = 1, amount = 40000\<rparr>]" False 0 0 "[]"
      "\<lparr>prevTxId = [], outpointIndex = 0, amount = 3047\<rparr>"]
  from inst one have "fee (selectUtxos 1000 [\<lparr>prevTxId = [], outpointIndex = 0, amount = 3047\<rparr>] False) = 2047"
    by simp
  moreover from inst len
  have "fee (selectUtxos 1000 [\<lparr>prevTxId = [], outpointIndex = 0, amount = 3047\<rparr>] False)
       < fee (selectUtxos 60000
           [\<lparr>prevTxId = [], outpointIndex = 0, amount = 50000\<rparr>,
            \<lparr>prevTxId = [], outpointIndex = 1, amount = 40000\<rparr>] False)"
    by blast
  ultimately show ?thesis using len by blast
qed




text \<open>
  C4. The returned total is not the sum of the selected amounts for every candidate
  list: with candidates \<open>2^53\<close> and 1 and target 1 both are selected, and the total is
  \<open>2^53\<close>, since \<open>2^53 + 1\<close> is no double.
\<close>

theorem total_is_sum_counterexample:
  "utxos (selectUtxos 1
       [\<lparr>prevTxId = [], outpointIndex = 0, amount = 9007199254740992\<rparr>,
        \<lparr>prevTxId = [], outpointIndex = 1, amount = 1\<rparr>] False)
     = [\<lparr>prevTxId = [], outpointIndex = 0, amount = 9007199254740992\<rparr>,
        \<lparr>prevTxId = [], outpointIndex = 1, amount = 1\<rparr>]
   \<and> total_amount (selectUtxos 1
       [\<lparr>prevTxId = [], outpointIndex = 0, amount = 9007199254740992\<rparr>,
        \<lparr>prevTxId = [], outpointIndex = 1, amount = 1\<rparr>] False) = 9007199254740992
   \<and> sum_list (map amount (utxos (selectUtxos 1
       [\<lparr>prevTxId = [], outpointIndex = 0, amount = 9007199254740992\<rparr>,
        \<lparr>prevTxId = [], outpointIndex = 1, amount = 1\<rparr>] False))) = 9007199254740993"
  by code_simp

text \<open>
  C4, amended. The returned total is the sum of the selected amounts taken in order in
  the arithmetic of numbers, for every target, candidate list and flag; it is their
  exact sum whenever no candidate amount is negative and all candidate amounts sum to at
  most \<open>2^53\<close>.
\<close>

theorem selectUtxos_total_is_sum:
  "total_amount (selectUtxos amt us fi) = js_sum (map amount (utxos (selectUtxos amt us fi)))
   \<and> ((\<forall>u \<in> set us. 0 \<le> amount u) \<and> sum_list (map amount us) \<le> 9007199254740992
        \<longrightarrow> total_amount (selectUtxos amt us fi)
              = sum_list (map amount (utxos (selectUtxos amt us fi))))"
proof -
  from selectUtxos_shape [of us amt fi] obtain k where
    sel: "utxos (selectUtxos amt us fi) = take k us"
    and tot: "total_amount (selectUtxos amt us fi) = js_sum (map amount (take k us))"
    by blast
  have "js_sum (take k (map amount us)) = sum_list (take k (map amount us))"
    if "\<forall>u \<in> set us. 0 \<le> amount u" "sum_list (map amount us) \<le> 9007199254740992"
    using that by (intro js_sum_exact) auto
  with sel tot show ?thesis
    by (simp add: take_map)
qed

theorem selectUtxos_total_is_sum_witness:
  "0 \<le> amount \<lparr>prevTxId = [], outpointIndex = 0, amount = 50000\<rparr>
   \<and> 0 \<le> amount \<lparr>prevTxId = [], outpointIndex = 1, amount = 40000\<rparr>
   \<and> sum_list (map amount
        [\<lparr>prevTxId = [], outpointIndex = 0, amount = 50000\<rparr>,
         \<lparr>prevTxId = [], outpointIndex = 1, amount = 40000\<rparr>]) \<le> 9007199254740992
   \<and> total_amount (selectUtxos 60000
        [\<lparr>prevTxId = [], outpointIndex = 0, amount = 50000\<rparr>,
         \<lparr>prevTxId = [], outpointIndex = 1, amount = 40000\<rparr>] False)
     = sum_list (map amount (utxos (selectUtxos 60000
        [\<lparr>prevTxId = [], outpointIndex = 0, amount = 50000\<rparr>,
         \<lparr>prevTxId = [], outpointIndex = 1, amount = 40000\<rparr>] False)))
   \<and> sum_list (map amount (utxos (selectUtxos 60000
        [\<lparr>prevTxId = [], outpointIndex = 0, amount = 50000\<rparr>,
         \<lparr>prevTxId = [], outpointIndex = 1, amount = 40000\<rparr>] False))) = 90000"
proof -
  let ?us = "[\<lparr>prevTxId = [], outpointIndex = 0, amount = 50000\<rparr>,
              \<lparr>prevTxId = [], outpointIndex = 1, amount = 40000\<rparr>]"
  have hyp: "(\<forall>u \<in> set ?us. 0 \<le> amount u) \<and> sum_list (map amount ?us) \<le> 9007199254740992"
    by simp
  have sel: "utxos (selectUtxos 60000 ?us False) = ?us"
    by (simp add: selectUtxos_def loop_body_def Let_def js_add_def js_sub_def to_double_def)
  from hyp selectUtxos_total_is_sum [of 60000 ?us False]
  have "total_amount (selectUtxos 60000 ?us False)
      = sum_list (map amount (utxos (selectUtxos 60000 ?us False)))"
    by blast
  with sel show ?thesis
    by simp
qed

text \<open>
  C5. With an empty candidate list \<open>hasEnough\<close> is not false for every target: target 0
  with the fee included gives \<open>0 \<ge> 0\<close>.
\<close>

theorem empty_candidates_counterexample:
  "hasEnough (selectUtxos 0 [] True)"
  by (simp add: selectUtxos_def Let_def js_add_def js_sub_def to_double_def)

text \<open>
  C5, amended. With an empty candidate list \<open>selectUtxos\<close> returns an empty selection,
  total 0, the base fee \<open>239 + 690\<close>, and \<open>hasEnough = (0 \<ge> amount)\<close> when the fee is
  included, \<open>hasEnough = (0 \<ge> amount + 929)\<close> when it is not; so \<open>hasEnough\<close> is false
  for every target above 0.
\<close>

theorem selectUtxos_empty_candidates:
  "utxos (selectUtxos amt [] fi) = []
   \<and> fee (selectUtxos amt [] fi) = 239 + 690
   \<and> total_amount (selectUtxos amt [] fi) = 0
   \<and> hasEnough (selectUtxos amt [] fi) = (if fi then amt \<le> 0 else amt + 929 \<le> 0)
   \<and> (0 < amt \<longrightarrow> \<not> hasEnough (selectUtxos amt [] fi))"
proof (cases fi)
  case True
  then show ?thesis
    by (simp add: selectUtxos_def Let_def empty_fee_included)
next
  case False
  then show ?thesis
    by (simp add: selectUtxos_def Let_def empty_fee_excluded)
qed

theorem selectUtxos_empty_candidates_witness:
  "(0 :: int) < 1000
   \<and> \<not> hasEnough (selectUtxos 1000 [] False)
   \<and> utxos (selectUtxos 1000 [] False) = []
   \<and> fee (selectUtxos 1000 [] False) = 929"
proof -
  have pos: "(0 :: int) < 1000" by simp
  from pos selectUtxos_empty_candidates [of 1000 False] show ?thesis by simp
qed

text \<open>
  C9. The selected list is a prefix of the candidate list: its length \<open>k\<close> is at most
  the number of candidates, and it is the first \<open>k\<close> candidates in their order.
\<close>

theorem selectUtxos_selected_is_prefix:
  "length (utxos (selectUtxos amt us fi)) \<le> length us
   \<and> utxos (selectUtxos amt us fi) = take (length (utxos (selectUtxos amt us fi))) us"
proof -
  from selectUtxos_shape [of us amt fi] obtain k where "k \<le> length us"
    "utxos (selectUtxos amt us fi) = take k us"
    by blast
  then show ?thesis by simp
qed

section \<open>Claims about \<open>createTransaction\<close>\<close>

text \<open>
  C6. \<open>createTransaction\<close> throws its insufficient-funds error (\<open>Amount too high.\<close>)
  exactly when \<open>selectUtxos\<close> reports \<open>hasEnough = false\<close> for the same amount,
  candidates and flag, and then it returns no transaction. \<open>selectUtxos\<close> has no
  \<open>throw\<close>: it is a total function into its result record, and insufficiency is the
  field \<open>hasEnough\<close>.
\<close>

theorem createTransaction_insufficient_funds:
  "(createTransaction toNumber addressToScriptPublicKey amt sendTo us path changeAddress fi
      = Inl AmountTooHigh)
     = (\<not> hasEnough (selectUtxos amt us fi))
   \<and> (\<not> hasEnough (selectUtxos amt us fi) \<longrightarrow>
        (\<forall>res. createTransaction toNumber addressToScriptPublicKey amt sendTo us path
                  changeAddress fi \<noteq> Inr res))"
  by (auto simp: createTransaction_def Let_def split: option.splits)

theorem createTransaction_insufficient_funds_witness:
  "\<not> hasEnough (selectUtxos 1000000 [\<lparr>prevTxId = ''ab'', outpointIndex = 0, amount = 1000\<rparr>] False)
   \<and> createTransaction (\<lambda>c. c) Some 1000000 ''dest''
        [\<lparr>prevTxId = ''ab'', outpointIndex = 0, amount = 1000\<rparr>] ''44'/121337'/0'/0/0'' ''change'' False
       = Inl AmountTooHigh"
proof -
  have no: "\<not> hasEnough (selectUtxos 1000000 [\<lparr>prevTxId = ''ab'', outpointIndex = 0, amount = 1000\<rparr>] False)"
    by (simp add: selectUtxos_def loop_body_def Let_def js_add_def js_sub_def to_double_def)
  from no createTransaction_insufficient_funds [of "\<lambda>c. c" Some 1000000 "''dest''"
      "[\<lparr>prevTxId = ''ab'', outpointIndex = 0, amount = 1000\<rparr>]" "''44'/121337'/0'/0/0''" "''change''" False]
  show ?thesis by blast
qed

text \<open>
  C7. With the change taken as the exact difference of the selected total, the value of
  the first output and the fee, the second output is not always its rounding: for
  target 2 and one candidate of \<open>2^54\<close> that difference is 18014398509479935, which is
  no double, and the second output holds 18014398509479936.
\<close>

theorem dust_law_counterexample:
  "createTransaction (\<lambda>c. c) Some 2 ''dest''
       [\<lparr>prevTxId = ''ab'', outpointIndex = 0, amount = 18014398509481984\<rparr>]
       ''44'/121337'/0'/0/0'' ''change'' False
     = Inr \<lparr> tx = \<lparr> version = 0,
                     inputs = [\<lparr> in_value = 18014398509481984, in_prevTxId = ''ab'',
                                 in_outpointIndex = 0, addressType = Some ''0'',
                                 addressIndex = Some ''0'' \<rparr>],
                     outputs = [\<lparr> out_value = 2, scriptPublicKey = ''dest'' \<rparr>,
                                \<lparr> out_value = 18014398509479936, scriptPublicKey = ''change'' \<rparr>],
                     changeAddressType = Some ''0'',
                     changeAddressIndex = Some ''0'' \<rparr>,
             tx_fee = 2047 \<rparr>
   \<and> total_amount (selectUtxos 2
         [\<lparr>prevTxId = ''ab'', outpointIndex = 0, amount = 18014398509481984\<rparr>] False)
       - 2
       - fee (selectUtxos 2
         [\<lparr>prevTxId = ''ab'', outpointIndex = 0, amount = 18014398509481984\<rparr>] False)
     = 18014398509479935
   \<and> Math_round 18014398509479935 \<noteq> 18014398509479936"
  by code_simp

text \<open>
  C7, amended. In every call of \<open>createTransaction\<close> that returns, let \<open>changeAmount\<close>
  be what the code computes: the selected total minus the value of the first output
  minus the fee, in the arithmetic of numbers. Up to 9999 the transaction has exactly
  one output; from 10000 on it has exactly two, the second with value
  \<open>Math.round(changeAmount)\<close> and the script of the change address. The returned fee is
  the selector's fee in both cases. When no candidate amount and not the target is
  negative, and the sum of all candidate amounts and the target each stay at most
  \<open>2^53\<close> with the fee of spending every candidate added, \<open>changeAmount\<close> is the exact
  difference and is not negative.
\<close>

theorem createTransaction_dust_law:
  assumes "createTransaction toNumber addressToScriptPublicKey amt sendTo us path changeAddress fi
      = Inr res"
  shows "outputs (tx res) \<noteq> []
    \<and> tx_fee res = fee (selectUtxos amt us fi)
    \<and> (js_sub (js_sub (total_amount (selectUtxos amt us fi)) (out_value (hd (outputs (tx res)))))
               (fee (selectUtxos amt us fi)) \<le> 9999
        \<longrightarrow> length (outputs (tx res)) = 1)
    \<and> (10000 \<le> js_sub (js_sub (total_amount (selectUtxos amt us fi))
                              (out_value (hd (outputs (tx res)))))
                      (fee (selectUtxos amt us fi))
        \<longrightarrow> length (outputs (tx res)) = 2
          \<and> out_value (outputs (tx res) ! 1)
              = Math_round (js_sub (js_sub (total_amount (selectUtxos amt us fi))
                                           (out_value (hd (outputs (tx res)))))
                                   (fee (selectUtxos amt us fi)))
          \<and> addressToScriptPublicKey changeAddress
              = Some (scriptPublicKey (outputs (tx res) ! 1)))
    \<and> ((\<forall>u \<in> set us. 0 \<le> amount u) \<and> 0 \<le> amt
        \<and> sum_list (map amount us) + (239 + 690 + 1118 * int (length us)) \<le> 9007199254740992
        \<and> amt + (239 + 690 + 1118 * int (length us)) \<le> 9007199254740992
        \<longrightarrow> js_sub (js_sub (total_amount (selectUtxos amt us fi))
                            (out_value (hd (outputs (tx res)))))
                    (fee (selectUtxos amt us fi))
              = total_amount (selectUtxos amt us fi) - out_value (hd (outputs (tx res)))
                  - fee (selectUtxos amt us fi)
          \<and> 0 \<le> total_amount (selectUtxos amt us fi) - out_value (hd (outputs (tx res)))
                  - fee (selectUtxos amt us fi))"
proof -
  let ?sel = "selectUtxos amt us fi"
  let ?target = "if fi then js_sub amt (fee ?sel) else amt"
  let ?change = "js_sub (js_sub (total_amount ?sel) ?target) (fee ?sel)"
  note run = assms [unfolded createTransaction_def Number_toFixed8_def Let_def]
  from run have enough: "hasEnough ?sel"
    by (auto split: if_splits)
  from run enough obtain sendScript where
    send: "addressToScriptPublicKey sendTo = Some sendScript"
    by (auto split: option.splits)
  have law: "outputs (tx res) \<noteq> [] \<and> out_value (hd (outputs (tx res))) = ?target
    \<and> tx_fee res = fee ?sel
    \<and> (?change \<le> 9999 \<longrightarrow> length (outputs (tx res)) = 1)
    \<and> (10000 \<le> ?change \<longrightarrow> length (outputs (tx res)) = 2
          \<and> out_value (outputs (tx res) ! 1) = Math_round ?change
          \<and> addressToScriptPublicKey changeAddress
              = Some (scriptPublicKey (outputs (tx res) ! 1)))"
  proof (cases "10000 \<le> ?change")
    case True
    with run enough send obtain changeScript where
      chg: "addressToScriptPublicKey changeAddress = Some changeScript"
      by (cases "addressToScriptPublicKey changeAddress") auto
    from run enough send True chg have
      outs: "outputs (tx res) = [\<lparr>out_value = ?target, scriptPublicKey = sendScript\<rparr>,
          \<lparr>out_value = Math_round ?change, scriptPublicKey = changeScript\<rparr>]"
      and f: "tx_fee res = fee ?sel"
      by auto
    with True chg show ?thesis
      by simp
  next
    case False
    with run enough send have
      outs: "outputs (tx res) = [\<lparr>out_value = ?target, scriptPublicKey = sendScript\<rparr>]"
      and f: "tx_fee res = fee ?sel"
      by auto
    with False show ?thesis
      by simp
  qed
  have exact: "?change = total_amount ?sel - ?target - fee ?sel
      \<and> 0 \<le> total_amount ?sel - ?target - fee ?sel"
    if nonneg: "\<forall>u \<in> set us. 0 \<le> amount u" and amt0: "0 \<le> amt"
      and sum_bound: "sum_list (map amount us) + (239 + 690 + 1118 * int (length us))
          \<le> 9007199254740992"
      and amt_bound: "amt + (239 + 690 + 1118 * int (length us)) \<le> 9007199254740992"
  proof -
    from selectUtxos_shape [of us amt fi] obtain k where k: "k \<le> length us"
      and f: "fee ?sel = 239 + 690 + 1118 * int k"
      and t: "total_amount ?sel = js_sum (map amount (take k us))"
      by blast
    from nonneg have nn: "\<forall>x \<in> set (map amount us). 0 \<le> x"
      by simp
    from sum_bound have "sum_list (map amount us) \<le> 9007199254740992"
      by simp
    with nn have "js_sum (take k (map amount us)) = sum_list (take k (map amount us))"
      by (rule js_sum_exact)
    with t have t': "total_amount ?sel = sum_list (take k (map amount us))"
      by (simp add: take_map)
    from sum_list_take_le [OF nn, of k] t'
    have t0: "0 \<le> total_amount ?sel" and t1: "total_amount ?sel \<le> sum_list (map amount us)"
      by simp_all
    from k f have f0: "929 \<le> fee ?sel" and f1: "fee ?sel \<le> 239 + 690 + 1118 * int (length us)"
      by simp_all
    from enough have e: "js_add ?target (fee ?sel) \<le> total_amount ?sel"
      by (subst (asm) hasEnough_iff) simp
    show ?thesis
    proof (cases fi)
      case True
      from amt0 amt_bound f0 f1 have tg: "js_sub amt (fee ?sel) = amt - fee ?sel"
        by (intro js_sub_exact) simp
      from amt0 amt_bound have "js_add (amt - fee ?sel) (fee ?sel) = amt"
        by (simp add: js_add_def to_double_exact)
      with e True tg have ge: "amt \<le> total_amount ?sel"
        by simp
      from t0 t1 sum_bound amt0 f0 f1 ge
      have s1: "js_sub (total_amount ?sel) (amt - fee ?sel) = total_amount ?sel - (amt - fee ?sel)"
        by (intro js_sub_exact) simp
      from t0 t1 sum_bound amt0 ge
      have s2: "js_sub (total_amount ?sel - (amt - fee ?sel)) (fee ?sel)
          = total_amount ?sel - (amt - fee ?sel) - fee ?sel"
        by (intro js_sub_exact) simp
      from True tg s1 s2 ge show ?thesis
        by simp
    next
      case False
      from amt0 amt_bound f0 f1 have "js_add amt (fee ?sel) = amt + fee ?sel"
        by (intro js_add_exact) simp
      with e False have ge: "amt + fee ?sel \<le> total_amount ?sel"
        by simp
      from t0 t1 sum_bound amt0 f0 ge
      have s1: "js_sub (total_amount ?sel) amt = total_amount ?sel - amt"
        by (intro js_sub_exact) simp
      from t0 t1 sum_bound amt0 f0 ge
      have s2: "js_sub (total_amount ?sel - amt) (fee ?sel) = total_amount ?sel - amt - fee ?sel"
        by (intro js_sub_exact) simp
      from False s1 s2 ge show ?thesis
        by simp
    qed
  qed
  from law have tgt: "out_value (hd (outputs (tx res))) = ?target"
    by blast
  from law exact show ?thesis
    unfolding tgt by blast
qed

theorem createTransaction_dust_law_witness:
  "(\<exists>res. createTransaction (\<lambda>c. c) Some 1000 ''dest''
        [\<lparr>prevTxId = ''ab'', outpointIndex = 0, amount = 13046\<rparr>] ''44'/121337'/0'/0/0''
        ''change'' False = Inr res
      \<and> total_amount (selectUtxos 1000 [\<lparr>prevTxId = ''ab'', outpointIndex = 0, amount = 13046\<rparr>] False)
          - out_value (hd (outputs (tx res)))
          - fee (selectUtxos 1000 [\<lparr>prevTxId = ''ab'', outpointIndex = 0, amount = 13046\<rparr>] False) = 9999
      \<and> length (outputs (tx res)) = 1 \<and> tx_fee res = 2047)
   \<and> (\<exists>res. createTransaction (\<lambda>c. c) Some 1000 ''dest''
        [\<lparr>prevTxId = ''ab'', outpointIndex = 0, amount = 13047\<rparr>] ''44'/121337'/0'/0/0''
        ''change'' False = Inr res
      \<and> total_amount (selectUtxos 1000 [\<lparr>prevTxId = ''ab'', outpointIndex = 0, amount = 13047\<rparr>] False)
          - out_value (hd (outputs (tx res)))
          - fee (selectUtxos 1000 [\<lparr>prevTxId = ''ab'', outpointIndex = 0, amount = 13047\<rparr>] False) = 10000
      \<and> length (outputs (tx res)) = 2
      \<and> out_value (outputs (tx res) ! 1) = 10000
      \<and> scriptPublicKey (outputs (tx res) ! 1) = ''change'')"
proof -
  let ?path = "''44'/121337'/0'/0/0''"
  let ?u = "\<lambda>a. [\<lparr>prevTxId = ''ab'', outpointIndex = 0, amount = a\<rparr>]"
  have sel1: "selectUtxos 1000 (?u 13046) False
      = \<lparr>hasEnough = True, utxos = ?u 13046, fee = 2047, total_amount = 13046\<rparr>"
    by (simp add: selectUtxos_def loop_body_def Let_def js_add_def js_sub_def to_double_def)
  have sel2: "selectUtxos 1000 (?u 13047) False
      = \<lparr>hasEnough = True, utxos = ?u 13047, fee = 2047, total_amount = 13047\<rparr>"
    by (simp add: selectUtxos_def loop_body_def Let_def js_add_def js_sub_def to_double_def)
  obtain r1 where r1: "createTransaction (\<lambda>c. c) Some 1000 ''dest'' (?u 13046) ?path ''change'' False
      = Inr r1"
    by (simp add: createTransaction_def sel1 Let_def js_sub_def to_double_def)
  obtain r2 where r2: "createTransaction (\<lambda>c. c) Some 1000 ''dest'' (?u 13047) ?path ''change'' False
      = Inr r2"
    by (simp add: createTransaction_def sel2 Let_def js_sub_def to_double_def)
  from r1 have o1: "out_value (hd (outputs (tx r1))) = 1000"
    by (auto simp add: createTransaction_def sel1 Let_def js_sub_def to_double_def)
  from r2 have o2: "out_value (hd (outputs (tx r2))) = 1000"
    by (auto simp add: createTransaction_def sel2 Let_def js_sub_def to_double_def)
  from createTransaction_dust_law [OF r1] o1
  have d1: "length (outputs (tx r1)) = 1 \<and> tx_fee r1 = 2047"
    by (simp add: sel1 js_sub_def to_double_def)
  from createTransaction_dust_law [OF r2] o2
  have d2: "length (outputs (tx r2)) = 2 \<and> out_value (outputs (tx r2) ! 1) = 10000
      \<and> scriptPublicKey (outputs (tx r2) ! 1) = ''change''"
    by (simp add: sel2 Math_round_def js_sub_def to_double_def)
  from r1 o1 d1 have "\<exists>res. createTransaction (\<lambda>c. c) Some 1000 ''dest'' (?u 13046) ?path ''change'' False = Inr res
      \<and> total_amount (selectUtxos 1000 (?u 13046) False) - out_value (hd (outputs (tx res)))
          - fee (selectUtxos 1000 (?u 13046) False) = 9999
      \<and> length (outputs (tx res)) = 1 \<and> tx_fee res = 2047"
    by (simp add: sel1)
  moreover
  from r2 o2 d2 have "\<exists>res. createTransaction (\<lambda>c. c) Some 1000 ''dest'' (?u 13047) ?path ''change'' False = Inr res
      \<and> total_amount (selectUtxos 1000 (?u 13047) False) - out_value (hd (outputs (tx res)))
          - fee (selectUtxos 1000 (?u 13047) False) = 10000
      \<and> length (outputs (tx res)) = 2
      \<and> out_value (outputs (tx res) ! 1) = 10000
      \<and> scriptPublicKey (outputs (tx res) ! 1) = ''change''"
    by (simp add: sel2)
  ultimately show ?thesis by blast
qed


section \<open>Claims about \<open>getAppAndVersion\<close>\<close>

text \<open>
  C8. \<open>getAppAndVersion\<close> throws its format error exactly when the leading byte of the
  device's response is not 1 (an empty response has no leading byte: reading it gives
  \<open>undefined\<close>, which is not 1); a rejected \<open>send\<close> is passed on as it is and is no
  format error. With leading byte 1 it returns, and for a response in the layout
  format byte, name length, name, version length, version, flags length, flags
  (whatever follows) the result holds that name and version, read as ASCII, and those
  flags.
\<close>

theorem getAppAndVersion_format:
  "(getAppAndVersion (Inr r :: 'e + byte list) = Inl FormatNotSupported) = (r = [] \<or> hd r \<noteq> 1)
   \<and> getAppAndVersion (Inl e :: 'e + byte list) = Inl (TransportFailed e)
   \<and> (r \<noteq> [] \<and> hd r = 1 \<longrightarrow>
        (\<exists>res. getAppAndVersion (Inr r :: 'e + byte list) = Inr res))
   \<and> (length nm < 256 \<and> length ver < 256 \<and> length fl < 256 \<longrightarrow>
        getAppAndVersion (Inr (layout nm ver fl rest) :: 'e + byte list)
          = Inr \<lparr> app_name = toString_ascii nm, app_version = toString_ascii ver,
                  app_flags = fl \<rparr>)"
proof -
  have transport: "getAppAndVersion (Inl e) = Inl (TransportFailed e)"
    by (simp add: getAppAndVersion_def)
  from getAppAndVersion_format_iff [of r] transport getAppAndVersion_returns [of r]
    getAppAndVersion_layout [of nm ver fl rest]
  show ?thesis by blast
qed

theorem getAppAndVersion_format_witness:
  "length [0x4B, 0x4C :: byte] < 256 \<and> length [0x31 :: byte] < 256 \<and> length [7 :: byte] < 256
   \<and> layout [0x4B, 0x4C] [0x31] [7] [0x90, 0] = [1, 2, 0x4B, 0x4C, 1, 0x31, 1, 7, 0x90, 0]
   \<and> getAppAndVersion (Inr [1, 2, 0x4B, 0x4C, 1, 0x31, 1, 7, 0x90, 0] :: unit + byte list)
       = Inr \<lparr> app_name = ''KL'', app_version = ''1'', app_flags = [7] \<rparr>
   \<and> getAppAndVersion (Inr [2, 2, 0x4B, 0x4C, 1, 0x31, 1, 7, 0x90, 0] :: unit + byte list)
       = Inl FormatNotSupported"
proof -
  have lens: "length [0x4B, 0x4C :: byte] < 256 \<and> length [0x31 :: byte] < 256
      \<and> length [7 :: byte] < 256"
    by simp
  have lay: "layout [0x4B, 0x4C] [0x31] [7] [0x90, 0] = [1, 2, 0x4B, 0x4C, 1, 0x31, 1, 7, 0x90, 0]"
    by (simp add: layout_def)
  have lead: "[2, 2, 0x4B, 0x4C, 1, 0x31, 1, 7, 0x90, 0 :: byte] = []
      \<or> hd [2, 2, 0x4B, 0x4C, 1, 0x31, 1, 7, 0x90, 0 :: byte] \<noteq> 1"
    by simp
  from lens lay
    getAppAndVersion_format [where nm = "[0x4B, 0x4C]" and ver = "[0x31]" and fl = "[7]"
      and rest = "[0x90, 0]" and r = "[2, 2, 0x4B, 0x4C, 1, 0x31, 1, 7, 0x90, 0]" and e = "()"]
  have ok: "getAppAndVersion (Inr [1, 2, 0x4B, 0x4C, 1, 0x31, 1, 7, 0x90, 0] :: unit + byte list)
       = Inr \<lparr> app_name = ''KL'', app_version = ''1'', app_flags = [7] \<rparr>"
    by (simp add: ascii_KL ascii_1)
  from lead
    getAppAndVersion_format [where nm = "[0x4B, 0x4C]" and ver = "[0x31]" and fl = "[7]"
      and rest = "[0x90, 0]" and r = "[2, 2, 0x4B, 0x4C, 1, 0x31, 1, 7, 0x90, 0]" and e = "()"]
  have bad: "getAppAndVersion (Inr [2, 2, 0x4B, 0x4C, 1, 0x31, 1, 7, 0x90, 0] :: unit + byte list)
       = Inl FormatNotSupported"
    by blast
  from lens lay ok bad show ?thesis by blast
qed

section \<open>Claims about \<open>initTransport\<close>\<close>

text \<open>
  C10. Take any state reached from the initial one in which some call of
  \<open>initTransport\<close> has returned a handle \<open>h\<close>, and any continuation of the run.
  Then no further transport is created (the list of created promises is unchanged and
  has one element), the stored promise is the same and is not cleared, the stored
  transport and type no longer change once they have been set, every call that has
  returned has returned \<open>h\<close>, and a new call with any argument (\<open>usb\<close>, \<open>bluetooth\<close>
  or another, equal to the stored type or not) creates nothing and returns \<open>h\<close>, at
  once or when it continues after waiting for the stored promise.
\<close>

theorem initTransport_single_acquisition:
  assumes "run evs initial = Some w"
    and "c < length (calls w)"
    and "calls w ! c = Returned h"
    and "run evs' w = Some w'"
  shows "promises w' = promises w \<and> length (promises w') = 1
    \<and> initPromise w' = initPromise w \<and> initPromise w' = Some 0
    \<and> (transport w \<noteq> None \<longrightarrow> transport w' = transport w \<and> type w' = type w)
    \<and> (\<forall>c' h'. c' < length (calls w') \<and> calls w' ! c' = Returned h' \<longrightarrow> h' = h)
    \<and> (\<forall>ty. promises (initTransport_enter ty w') = promises w'
          \<and> (calls (initTransport_enter ty w') ! length (calls w') = Returned h
             \<or> (\<exists>w2. initTransport_resume (length (calls w')) (initTransport_enter ty w') = Some w2
                   \<and> calls w2 ! length (calls w') = Returned h
                   \<and> promises w2 = promises w')))"
proof -
  from consistent_initial assms(1) have iw: "consistent w"
    by (rule consistent_run)
  from iw assms(4) have iw': "consistent w'"
    by (rule consistent_run)
  from iw assms(2,3) have pw: "promises w = [Fulfilled h]"
    by (rule returned_gives_promise)
  from iw pw assms(4) have pw': "promises w' = [Fulfilled h]"
    by (rule run_keeps_promise)
  from iw pw have ipw: "initPromise w = Some 0"
    by (simp add: consistent_def)
  from iw' pw' have ipw': "initPromise w' = Some 0"
    by (simp add: consistent_def)
  have kept: "transport w \<noteq> None \<longrightarrow> transport w' = transport w \<and> type w' = type w"
    using run_keeps_transport [OF iw _ assms(4)] by auto
  have same: "\<forall>c' h'. c' < length (calls w') \<and> calls w' ! c' = Returned h' \<longrightarrow> h' = h"
  proof (intro allI impI)
    fix c' h'
    assume "c' < length (calls w') \<and> calls w' ! c' = Returned h'"
    with iw' have "promises w' = [Fulfilled h']"
      by (auto intro: returned_gives_promise)
    with pw' show "h' = h"
      by simp
  qed
  from later_call_returns [OF iw' pw'] pw pw' ipw ipw' kept same show ?thesis
    by simp
qed

theorem initTransport_single_acquisition_witness:
  "run [Call ''usb'', Settle 0 (Fulfilled (7::nat)), Resume 0] initial
     = Some \<lparr> transport = Some 7, initPromise = Some 0, type = Some ''usb'',
              promises = [Fulfilled 7], calls = [Returned 7] \<rparr>
   \<and> run [Call ''bluetooth'', Resume 1, Call ''usb'']
       \<lparr> transport = Some 7, initPromise = Some 0, type = Some ''usb'',
         promises = [Fulfilled 7], calls = [Returned 7] \<rparr>
     = Some \<lparr> transport = Some 7, initPromise = Some 0, type = Some ''usb'',
              promises = [Fulfilled (7::nat)], calls = [Returned 7, Returned 7, Returned 7] \<rparr>
   \<and> promises \<lparr> transport = Some 7, initPromise = Some 0, type = Some ''usb'',
         promises = [Fulfilled (7::nat)], calls = [Returned 7, Returned 7, Returned 7] \<rparr>
     = promises \<lparr> transport = Some 7, initPromise = Some 0, type = Some ''usb'',
         promises = [Fulfilled (7::nat)], calls = [Returned 7] \<rparr>
   \<and> calls (initTransport_enter ''bluetooth''
         \<lparr> transport = Some 7, initPromise = Some 0, type = Some ''usb'',
           promises = [Fulfilled (7::nat)], calls = [Returned 7, Returned 7, Returned 7] \<rparr>)
     = [Returned 7, Returned 7, Returned 7, AwaitShared 0]"
proof -
  let ?w = "\<lparr> transport = Some 7, initPromise = Some 0, type = Some ''usb'',
              promises = [Fulfilled (7::nat)], calls = [Returned 7] \<rparr>"
  let ?w' = "\<lparr> transport = Some 7, initPromise = Some 0, type = Some ''usb'',
              promises = [Fulfilled (7::nat)], calls = [Returned 7, Returned 7, Returned 7] \<rparr>"
  have first: "run [Call ''usb'', Settle 0 (Fulfilled (7::nat)), Resume 0] initial = Some ?w"
    by (simp add: initial_def initTransport_enter_def settle_def initTransport_resume_def
        promise_at_def)
  have ret: "0 < length (calls ?w)" "calls ?w ! 0 = Returned 7"
    by simp_all
  have later: "run [Call ''bluetooth'', Resume 1, Call ''usb''] ?w = Some ?w'"
    by (simp add: initTransport_enter_def initTransport_resume_def promise_at_def)
  have enter: "calls (initTransport_enter ''bluetooth'' ?w')
      = [Returned 7, Returned 7, Returned 7, AwaitShared 0]"
    by (simp add: initTransport_enter_def)
  from initTransport_single_acquisition [OF first ret later]
  have "promises ?w' = promises ?w"
    by blast
  with first later enter show ?thesis
    by blast
qed

end
